theory Spec2Isabelle
  imports Complex_Main "HOL-Library.FSet" "HOL-Library.Char_ord" "HOL-Library.List_Lexorder"
begin

section \<open>Python values and exceptions\<close>

text \<open>
  The builder (\<^verbatim>\<open>src/caproneisis/builder.py\<close>) works on the objects that
  \<^verbatim>\<open>json.loads\<close> returns. They are modelled by the datatype \<open>json\<close>; a
  dict is the list of its items (keys distinct, in insertion order).
\<close>

datatype nonfinite = NaN | PosInf | NegInf

datatype json =
    JNull
  | JBool bool
  | JInt int
  | JFloat real
  | JNonFinite nonfinite
  | JStr string
  | JArr "json list"
  | JObj "(string \<times> json) list"

text \<open>The exception classes that the handlers of the builder tell apart, or that the
  modelled operations raise.\<close>

datatype exn =
    JSONDecodeError
  | AttributeError
  | TypeError
  | ZeroDivisionError
  | ValueError
  | RecursionError
  | OSError
  | NotFoundError
  | OtherError

definition bind_exn :: "exn + 'a \<Rightarrow> ('a \<Rightarrow> exn + 'b) \<Rightarrow> exn + 'b" where
  "bind_exn m f = (case m of Inl e \<Rightarrow> Inl e | Inr x \<Rightarrow> f x)"

text \<open>\<^verbatim>\<open>x.get(k, d)\<close>: only a dict has the method.\<close>

fun py_get :: "json \<Rightarrow> string \<Rightarrow> json \<Rightarrow> exn + json" where
  "py_get (JObj kvs) k d = Inr (case map_of kvs k of Some v \<Rightarrow> v | None \<Rightarrow> d)"
| "py_get _ k d = Inl AttributeError"

text \<open>\<^verbatim>\<open>for t in x\<close>: a list gives its elements, a dict its keys, a string its
  characters; the other values are not iterable.\<close>

fun py_iter :: "json \<Rightarrow> exn + json list" where
  "py_iter (JArr xs) = Inr xs"
| "py_iter (JObj kvs) = Inr (map (\<lambda>kv. JStr (fst kv)) kvs)"
| "py_iter (JStr s) = Inr (map (\<lambda>c. JStr [c]) s)"
| "py_iter _ = Inl TypeError"

text \<open>The generator expression \<^verbatim>\<open>t.get(k, '') for t in ts\<close>, materialised.\<close>

fun get_each :: "string \<Rightarrow> json list \<Rightarrow> exn + json list" where
  "get_each k [] = Inr []"
| "get_each k (t # ts) =
     bind_exn (py_get t k (JStr [])) (\<lambda>v. bind_exn (get_each k ts) (\<lambda>vs. Inr (v # vs)))"

text \<open>\<^verbatim>\<open>' '.join(items)\<close>: every item has to be a string.\<close>

fun py_join :: "json list \<Rightarrow> exn + string" where
  "py_join [] = Inr []"
| "py_join [JStr s] = Inr s"
| "py_join (JStr s # v # vs) = bind_exn (py_join (v # vs)) (\<lambda>r. Inr (s @ '' '' @ r))"
| "py_join (_ # vs) = Inl TypeError"

definition join_field :: "string \<Rightarrow> json \<Rightarrow> exn + string" where
  "join_field k x =
     bind_exn (py_iter x) (\<lambda>ts. bind_exn (get_each k ts) py_join)"

section \<open>The record extractor\<close>

text \<open>An extracted record is the tuple (id, title, content, year, prefix).\<close>

type_synonym extracted = "json \<times> json \<times> json \<times> json \<times> json"

text \<open>A record extractor returns a tuple, returns \<^verbatim>\<open>None\<close>, or raises. The tuple has
  five fields, as the type \<^verbatim>\<open>RecordExtractor\<close> says, so it is true in
  \<^verbatim>\<open>if extracted:\<close>.\<close>

type_synonym record_extractor = "json \<Rightarrow> exn + extracted option"

text \<open>The body of the \<^verbatim>\<open>try\<close> block of \<^verbatim>\<open>default_extractor\<close>. The builtin
  \<^verbatim>\<open>str\<close> is the parameter \<open>py_str\<close>.\<close>

definition default_extractor_body :: "(json \<Rightarrow> string) \<Rightarrow> json \<Rightarrow> exn + extracted" where
  "default_extractor_body py_str rec =
     bind_exn (py_get rec ''id'' (JStr [])) (\<lambda>doi.
     bind_exn (py_get rec ''attributes'' (JObj [])) (\<lambda>attrs.
     bind_exn (py_get attrs ''titles'' (JArr [])) (\<lambda>tl.
     bind_exn (join_field ''title'' tl) (\<lambda>titles.
     bind_exn (py_get attrs ''descriptions'' (JArr [])) (\<lambda>dl.
     bind_exn (join_field ''description'' dl) (\<lambda>descs.
     bind_exn (py_get attrs ''publicationYear'' (JStr [])) (\<lambda>y.
     bind_exn (py_get attrs ''prefix'' (JStr [])) (\<lambda>prefix.
       Inr (doi, JStr titles, JStr descs, JStr (py_str y), prefix)))))))))"

text \<open>\<^verbatim>\<open>except Exception: return None\<close>.\<close>

definition default_extractor :: "(json \<Rightarrow> string) \<Rightarrow> record_extractor" where
  "default_extractor py_str rec =
     Inr (case default_extractor_body py_str rec of Inl e \<Rightarrow> None | Inr t \<Rightarrow> Some t)"

section \<open>Progress tracking\<close>

text \<open>
  The members of \<^verbatim>\<open>self._processed_files\<close> are hashable Python values; two
  of them are the same member when Python's \<^verbatim>\<open>==\<close> says so (\<^verbatim>\<open>True == 1 == 1.0\<close>).
  A file is looked up under \<^verbatim>\<open>str(filepath)\<close>, the key \<open>KStr path\<close>.
\<close>

datatype pykey = KNone | KNum real | KNonFinite nonfinite | KStr string

fun hash_key :: "json \<Rightarrow> exn + pykey" where
  "hash_key JNull = Inr KNone"
| "hash_key (JBool b) = Inr (KNum (if b then 1 else 0))"
| "hash_key (JInt i) = Inr (KNum (of_int i))"
| "hash_key (JFloat r) = Inr (KNum r)"
| "hash_key (JNonFinite n) = Inr (KNonFinite n)"
| "hash_key (JStr s) = Inr (KStr s)"
| "hash_key (JArr xs) = Inl TypeError"
| "hash_key (JObj kvs) = Inl TypeError"

fun hash_keys :: "json list \<Rightarrow> exn + pykey list" where
  "hash_keys [] = Inr []"
| "hash_keys (x # xs) =
     bind_exn (hash_key x) (\<lambda>k. bind_exn (hash_keys xs) (\<lambda>ks. Inr (k # ks)))"

text \<open>\<^verbatim>\<open>set(x)\<close>.\<close>

definition py_set :: "json \<Rightarrow> exn + pykey fset" where
  "py_set x = bind_exn (py_iter x) (\<lambda>xs. bind_exn (hash_keys xs) (\<lambda>ks. Inr (fset_of_list ks)))"

text \<open>
  What \<^verbatim>\<open>self._client.get(index=META_INDEX, id="progress_" + index_name)\<close> gives:
  an exception (no such document, backend unreachable, a document without
  \<^verbatim>\<open>_source\<close>) or a document whose \<^verbatim>\<open>_source\<close> has no
  \<^verbatim>\<open>processed_files\<close> field, has a string there, or has a value that is not a
  string.
\<close>

datatype stored_field = FieldAbsent | FieldText string | FieldOther

datatype get_result = GetRaises exn | Doc stored_field

text \<open>The body of the \<^verbatim>\<open>try\<close> block of \<^verbatim>\<open>_load_progress\<close>;
  \<^verbatim>\<open>json.loads\<close> is the parameter \<open>loads\<close> and raises \<^verbatim>\<open>TypeError\<close> on a value
  that is not a string.\<close>

definition load_progress_body :: "(string \<Rightarrow> exn + json) \<Rightarrow> get_result \<Rightarrow> exn + pykey fset" where
  "load_progress_body loads g =
     (case g of
        GetRaises e \<Rightarrow> Inl e
      | Doc fld \<Rightarrow>
          bind_exn (case fld of
                      FieldAbsent \<Rightarrow> loads ''[]''
                    | FieldText s \<Rightarrow> loads s
                    | FieldOther \<Rightarrow> Inl TypeError) py_set)"

text \<open>\<^verbatim>\<open>except Exception: self._processed_files = set()\<close>.\<close>

definition load_progress :: "(string \<Rightarrow> exn + json) \<Rightarrow> get_result \<Rightarrow> pykey fset" where
  "load_progress loads g =
     (case load_progress_body loads g of Inl e \<Rightarrow> {||} | Inr S \<Rightarrow> S)"

section \<open>The action stream of \<^verbatim>\<open>add_jsonl_files\<close>\<close>

text \<open>The action that the generator yields for an extracted record.\<close>

record document =
  doc_id :: json
  doc_title :: json
  doc_content :: json
  doc_year :: json
  doc_prefix :: json

record write_op =
  op_index :: string
  op_id :: json
  op_source :: document

fun make_action :: "string \<Rightarrow> extracted \<Rightarrow> write_op" where
  "make_action name (i, t, c, y, p) =
     \<lparr>op_index = name, op_id = i,
      op_source = \<lparr>doc_id = i, doc_title = t, doc_content = c, doc_year = y, doc_prefix = p\<rparr>\<rparr>"

text \<open>
  What a run is given: the fields of the builder and the arguments of
  \<^verbatim>\<open>add_jsonl_files\<close> that the generator reads, \<^verbatim>\<open>json.loads\<close>, and the clock:
  \<open>elapsed_at n\<close> is the value of \<^verbatim>\<open>time.time() - start_time\<close> read for the
  progress report at \<open>n\<close> records (the record counter grows with every report, so there
  is at most one reading per count).
\<close>

record run_context =
  index_name :: string
  progress_interval :: int
  test_limit :: "int option"
  resume :: bool
  loads :: "string \<Rightarrow> exn + json"
  extractor :: record_extractor
  elapsed_at :: "int \<Rightarrow> real"

text \<open>
  The state that the generator changes: the two \<^verbatim>\<open>nonlocal\<close> counters and
  \<^verbatim>\<open>self._processed_files\<close>; what it has put out: the actions yielded, the
  progress lines printed (record count, rate, file number, number of files) and the
  sets written by \<^verbatim>\<open>_save_progress\<close>, oldest first.
\<close>

record gen_state =
  total_records :: int
  total_errors :: int
  processed_files :: "pykey fset"
  emitted :: "write_op list"
  progress_lines :: "(int \<times> real \<times> nat \<times> nat) list"
  saved :: "pykey fset list"

text \<open>How a piece of the generator's body ends: it falls through, it raises, or it
  executes \<^verbatim>\<open>return\<close>.\<close>

datatype flow = Next gen_state | Raise exn gen_state | Return gen_state

fun flow_state :: "flow \<Rightarrow> gen_state" where
  "flow_state (Next s) = s"
| "flow_state (Raise e s) = s"
| "flow_state (Return s) = s"

definition count_error :: "gen_state \<Rightarrow> gen_state" where
  "count_error st = st\<lparr>total_errors := total_errors st + 1\<rparr>"

text \<open>\<^verbatim>\<open>if test_limit and total_records >= test_limit: return\<close>. Neither
  \<^verbatim>\<open>None\<close> nor \<^verbatim>\<open>0\<close> is true in Python.\<close>

definition check_limit :: "run_context \<Rightarrow> gen_state \<Rightarrow> flow" where
  "check_limit ctx st =
     (case test_limit ctx of
        None \<Rightarrow> Next st
      | Some k \<Rightarrow> if k \<noteq> 0 \<and> total_records st \<ge> k then Return st else Next st)"

text \<open>
  The branch \<^verbatim>\<open>if extracted:\<close>: count, yield, report progress, test the limit.
  \<^verbatim>\<open>total_records % self.progress_interval\<close> raises for the interval 0, and
  \<^verbatim>\<open>total_records / elapsed\<close> raises for \<^verbatim>\<open>elapsed == 0.0\<close>.
\<close>

definition emit :: "run_context \<Rightarrow> nat \<Rightarrow> nat \<Rightarrow> extracted \<Rightarrow> gen_state \<Rightarrow> flow" where
  "emit ctx n_files file_idx ex st =
     (let st1 = st\<lparr>total_records := total_records st + 1,
                    emitted := emitted st @ [make_action (index_name ctx) ex]\<rparr>
      in if progress_interval ctx = 0 then Raise ZeroDivisionError st1
         else if total_records st1 mod progress_interval ctx = 0 then
           (let elapsed = elapsed_at ctx (total_records st1)
            in if elapsed = 0 then Raise ZeroDivisionError st1
               else check_limit ctx
                      (st1\<lparr>progress_lines := progress_lines st1 @
                         [(total_records st1, of_int (total_records st1) / elapsed,
                           file_idx + 1, n_files)]\<rparr>))
         else check_limit ctx st1)"

text \<open>The body of \<^verbatim>\<open>for line in f\<close>: the inner \<^verbatim>\<open>try\<close> with its handler
  \<^verbatim>\<open>except json.JSONDecodeError\<close>; any other exception leaves the loop.\<close>

definition inner_handler :: "exn \<Rightarrow> gen_state \<Rightarrow> flow" where
  "inner_handler e st = (if e = JSONDecodeError then Next (count_error st) else Raise e st)"

definition process_line :: "run_context \<Rightarrow> nat \<Rightarrow> nat \<Rightarrow> string \<Rightarrow> gen_state \<Rightarrow> flow" where
  "process_line ctx n_files file_idx line st =
     (case loads ctx line of
        Inl e \<Rightarrow> inner_handler e st
      | Inr rec \<Rightarrow>
          (case extractor ctx rec of
             Inl e \<Rightarrow> inner_handler e st
           | Inr None \<Rightarrow> Next st
           | Inr (Some ex) \<Rightarrow>
               (case emit ctx n_files file_idx ex st of
                  Raise e st' \<Rightarrow> inner_handler e st'
                | r \<Rightarrow> r)))"

fun run_lines :: "run_context \<Rightarrow> nat \<Rightarrow> nat \<Rightarrow> string list \<Rightarrow> gen_state \<Rightarrow> flow" where
  "run_lines ctx n_files file_idx [] st = Next st"
| "run_lines ctx n_files file_idx (l # ls) st =
     (case process_line ctx n_files file_idx l st of
        Next st' \<Rightarrow> run_lines ctx n_files file_idx ls st'
      | r \<Rightarrow> r)"

text \<open>
  What opening and reading a file gives: the lines read, then the end of the file or an
  exception (raised by \<^verbatim>\<open>open\<close> when there is no line before it).
\<close>

datatype src_file = SrcFile (file_lines: "string list") (read_fault: "exn option")

text \<open>\<^verbatim>\<open>_save_progress\<close> writes the whole set.\<close>

definition save_progress :: "gen_state \<Rightarrow> gen_state" where
  "save_progress st = st\<lparr>saved := saved st @ [processed_files st]\<rparr>"

text \<open>\<^verbatim>\<open>self._processed_files.add(file_key)\<close> and the periodic save.\<close>

definition mark_complete :: "string \<Rightarrow> gen_state \<Rightarrow> gen_state" where
  "mark_complete file_key st =
     (let st1 = st\<lparr>processed_files := finsert (KStr file_key) (processed_files st)\<rparr>
      in if int (fcard (processed_files st1)) mod 100 = 0 then save_progress st1 else st1)"

text \<open>
  One round of \<^verbatim>\<open>for file_idx, filepath in enumerate(files)\<close>. The outer handler
  \<^verbatim>\<open>except Exception\<close> counts one error and goes on with the next file. The result
  is \<open>Next\<close> or \<open>Return\<close>.
\<close>

definition process_file ::
  "run_context \<Rightarrow> nat \<Rightarrow> nat \<Rightarrow> string \<Rightarrow> src_file \<Rightarrow> gen_state \<Rightarrow> flow" where
  "process_file ctx n_files file_idx file_key f st =
     (if resume ctx \<and> KStr file_key |\<in>| processed_files st then Next st
      else
        (case run_lines ctx n_files file_idx (file_lines f) st of
           Return st' \<Rightarrow> Return st'
         | Raise e st' \<Rightarrow> Next (count_error st')
         | Next st' \<Rightarrow>
             (case read_fault f of
                Some e \<Rightarrow> Next (count_error st')
              | None \<Rightarrow> Next (mark_complete file_key st'))))"

text \<open>The loop over \<^verbatim>\<open>enumerate(files)\<close>; \<open>process_file\<close> does not raise, so the
  last case is never taken.\<close>

fun run_files ::
  "run_context \<Rightarrow> nat \<Rightarrow> (nat \<times> string \<times> src_file) list \<Rightarrow> gen_state \<Rightarrow> gen_state" where
  "run_files ctx n_files [] st = st"
| "run_files ctx n_files ((file_idx, file_key, f) # rest) st =
     (case process_file ctx n_files file_idx file_key f st of
        Next st' \<Rightarrow> run_files ctx n_files rest st'
      | Return st' \<Rightarrow> st'
      | Raise e st' \<Rightarrow> st')"

text \<open>The generator, run to its end: \<open>files\<close> pairs each discovered path with what
  reading it gives.\<close>

definition generate_actions ::
  "run_context \<Rightarrow> (string \<times> src_file) list \<Rightarrow> gen_state \<Rightarrow> gen_state" where
  "generate_actions ctx files st = run_files ctx (length files) (enumerate 0 files) st"

section \<open>File discovery\<close>

text \<open>\<^verbatim>\<open>sep in s\<close> and \<^verbatim>\<open>s.split(sep)\<close> for a separator that is not empty.\<close>

fun contains :: "string \<Rightarrow> string \<Rightarrow> bool" where
  "contains sep [] = (sep = [])"
| "contains sep (c # cs) = (take (length sep) (c # cs) = sep \<or> contains sep cs)"

function split_from :: "string \<Rightarrow> string \<Rightarrow> string \<Rightarrow> string list" where
  "split_from sep cur [] = [rev cur]"
| "split_from sep cur (c # cs) =
     (if sep \<noteq> [] \<and> take (length sep) (c # cs) = sep
      then rev cur # split_from sep [] (drop (length sep) (c # cs))
      else split_from sep (c # cur) cs)"
  by pat_completeness auto
termination
  by (relation "measure (\<lambda>(sep, cur, s). length s)") (auto simp: neq_Nil_conv)

definition py_split :: "string \<Rightarrow> string \<Rightarrow> string list" where
  "py_split sep s = split_from sep [] s"

text \<open>
  A path is written as \<^verbatim>\<open>str(filepath)\<close>. \<^verbatim>\<open>sorted\<close> compares
  \<^verbatim>\<open>Path\<close> objects part by part, each part as a string.
\<close>

definition path_parts :: "string \<Rightarrow> string list" where
  "path_parts p = py_split ''/'' p"

text \<open>
  The file system as the run sees it: \<open>glob pattern\<close> is
  \<^verbatim>\<open>Path(pattern).parent.glob(Path(pattern).name)\<close>, \<open>rglob base tail\<close> is
  \<^verbatim>\<open>Path(base).rglob(tail)\<close> (both of \<^verbatim>\<open>pathlib\<close>, which raises on a
  pattern it does not accept), and \<open>read_file p\<close> is what opening and reading \<open>p\<close> gives.
\<close>

record file_system =
  glob :: "string \<Rightarrow> exn + string list"
  rglob :: "string \<Rightarrow> string \<Rightarrow> exn + string list"
  read_file :: "string \<Rightarrow> src_file"

text \<open>The block \<^verbatim>\<open># Find all matching files\<close> of \<^verbatim>\<open>add_jsonl_files\<close>.\<close>

definition discover_files :: "file_system \<Rightarrow> string \<Rightarrow> exn + string list" where
  "discover_files fs pattern =
     bind_exn
       (if contains ''**'' pattern
        then rglob fs (hd (py_split ''**'' pattern)) (last (py_split ''**/'' pattern))
        else glob fs pattern)
       (\<lambda>ps. Inr (sort_key path_parts ps))"

section \<open>\<^verbatim>\<open>add_jsonl_files\<close>\<close>

record stats =
  stat_total_records :: int
  stat_total_errors :: int
  elapsed_seconds :: real
  elapsed_hours :: real
  rate_per_second :: real
  files_processed :: nat

text \<open>
  The backend's answer to the actions it is sent: \<open>item_ok i a\<close> tells whether the
  \<open>i\<close>-th action of the stream, \<open>a\<close>, was written. With \<^verbatim>\<open>raise_on_error=False\<close>
  the helpers \<^verbatim>\<open>bulk\<close> and \<^verbatim>\<open>parallel_bulk\<close> report a failed item and do
  not raise.
\<close>

definition bulk_results :: "(nat \<Rightarrow> write_op \<Rightarrow> bool) \<Rightarrow> write_op list \<Rightarrow> bool list" where
  "bulk_results item_ok actions = map (\<lambda>(i, a). item_ok i a) (enumerate 0 actions)"

text \<open>
  \<^verbatim>\<open># Execute bulk ingestion\<close>: the loop over \<^verbatim>\<open>parallel_bulk\<close> adds one
  error for every item that failed; the result of \<^verbatim>\<open>bulk\<close> is dropped.
\<close>

definition submit :: "bool \<Rightarrow> (nat \<Rightarrow> write_op \<Rightarrow> bool) \<Rightarrow> gen_state \<Rightarrow> gen_state" where
  "submit parallel item_ok st =
     (if parallel
      then st\<lparr>total_errors :=
                total_errors st + int (length (filter Not (bulk_results item_ok (emitted st))))\<rparr>
      else st)"

definition initial_state :: "pykey fset \<Rightarrow> gen_state" where
  "initial_state processed =
     \<lparr>total_records = 0, total_errors = 0, processed_files = processed,
      emitted = [], progress_lines = [], saved = []\<rparr>"

definition build_stats :: "real \<Rightarrow> gen_state \<Rightarrow> stats" where
  "build_stats elapsed st =
     \<lparr>stat_total_records = total_records st,
      stat_total_errors = total_errors st,
      elapsed_seconds = elapsed,
      elapsed_hours = elapsed / 3600,
      rate_per_second = (if elapsed > 0 then of_int (total_records st) / elapsed else 0),
      files_processed = fcard (processed_files st)\<rparr>"

text \<open>
  \<^verbatim>\<open>add_jsonl_files\<close>: \<open>processed\<close> is \<^verbatim>\<open>self._processed_files\<close> as the
  constructor loaded it, \<open>elapsed_end\<close> the last reading of the clock. The result is the
  statistics returned and the state left behind, or the exception of the discovery. The
  calls of the Elasticsearch client are taken to return.
\<close>

definition add_jsonl_files ::
  "run_context \<Rightarrow> bool \<Rightarrow> (nat \<Rightarrow> write_op \<Rightarrow> bool) \<Rightarrow> real \<Rightarrow> file_system \<Rightarrow> string \<Rightarrow>
     pykey fset \<Rightarrow> exn + stats \<times> gen_state" where
  "add_jsonl_files ctx parallel item_ok elapsed_end fs pattern processed =
     bind_exn (discover_files fs pattern) (\<lambda>files.
       (let st1 = generate_actions ctx (map (\<lambda>p. (p, read_file fs p)) files)
                    (initial_state processed);
            st2 = submit parallel item_ok st1;
            st3 = save_progress st2
        in Inr (build_stats elapsed_end st3, st3)))"

section \<open>Vocabulary of the statements\<close>

text \<open>Where the record counter stands against a limit \<open>k\<close> when a piece of the
  generator's body ends: below \<open>k\<close> while the generator goes on, at \<open>k\<close> when it
  returns.\<close>

fun limit_ok :: "int \<Rightarrow> flow \<Rightarrow> bool" where
  "limit_ok k (Next s) = (total_records s < k)"
| "limit_ok k (Raise e s) = (total_records s < k)"
| "limit_ok k (Return s) = (total_records s = k)"



definition rejected :: "run_context \<Rightarrow> string \<Rightarrow> bool" where
  "rejected ctx l =
     (case loads ctx l of
        Inl e \<Rightarrow> False
      | Inr rec \<Rightarrow> (case extractor ctx rec of Inr None \<Rightarrow> True | _ \<Rightarrow> False))"

text \<open>
  What it means for a path to match a glob pattern, part by part: within a part
  \<^verbatim>\<open>*\<close> stands for any characters and \<^verbatim>\<open>?\<close> for one; the part \<^verbatim>\<open>**\<close> stands
  for any number of directories (bracket expressions are left out). This is the reading
  of the words "files matching the pattern", not code of the builder.
\<close>

fun wild_match :: "string \<Rightarrow> string \<Rightarrow> bool" where
  "wild_match [] [] = True"
| "wild_match [] (c # cs) = False"
| "wild_match (p # ps) [] = (p = CHR ''*'' \<and> wild_match ps [])"
| "wild_match (p # ps) (c # cs) =
     (if p = CHR ''*'' then wild_match ps (c # cs) \<or> wild_match (p # ps) cs
      else (p = CHR ''?'' \<or> p = c) \<and> wild_match ps cs)"

fun spec_matches :: "string list \<Rightarrow> string list \<Rightarrow> bool" where
  "spec_matches [] [] = True"
| "spec_matches [] (c # cs) = False"
| "spec_matches (p # ps) [] = (p = ''**'' \<and> spec_matches ps [])"
| "spec_matches (p # ps) (c # cs) =
     (if p = ''**'' then spec_matches ps (c # cs) \<or> spec_matches (p # ps) cs
      else wild_match p c \<and> spec_matches ps cs)"

section \<open>Example inputs\<close>

text \<open>A parser that knows four texts, a rendering of \<^verbatim>\<open>str\<close> for strings, a
  run with the default extractor, resume on, no limit and a clock that has advanced, and
  a file system with one file for every pattern without \<^verbatim>\<open>**\<close>.\<close>

definition ex_loads :: "string \<Rightarrow> exn + json" where
  "ex_loads s =
     (if s = ''{}'' then Inr (JObj [])
      else if s = ''[]'' then Inr (JArr [])
      else if s = ''\"ab\"'' then Inr (JStr ''ab'')
      else if s = ''[\"old.jsonl\"]'' then Inr (JArr [JStr ''old.jsonl''])
      else Inl JSONDecodeError)"

definition ex_fs :: file_system where
  "ex_fs =
     \<lparr>glob = (\<lambda>pattern. Inr [''data/a.jsonl'']),
      rglob = (\<lambda>base tail. Inr []),
      read_file = (\<lambda>p. SrcFile [''{}''] None)\<rparr>"

definition ex_str :: "json \<Rightarrow> string" where
  "ex_str v = (case v of JStr s \<Rightarrow> s | _ \<Rightarrow> ''?'')"

definition ex_ctx :: run_context where
  "ex_ctx =
     \<lparr>index_name = ''corpus'', progress_interval = 100000, test_limit = None, resume = True,
      loads = ex_loads, extractor = default_extractor ex_str, elapsed_at = (\<lambda>n. 1)\<rparr>"

text \<open>The action of the default extractor for the line \<^verbatim>\<open>{}\<close>.\<close>

definition ex_action :: write_op where
  "ex_action = make_action ''corpus'' (JStr [], JStr [], JStr [], JStr [], JStr [])"

section \<open>Properties of the generator\<close>

text \<open>\<^verbatim>\<open>s.split(sep)\<close> has at least one element, so \<^verbatim>\<open>[0]\<close> and \<^verbatim>\<open>[-1]\<close>
  do not raise.\<close>

lemma split_from_nonempty: "split_from sep cur s \<noteq> []"
  by (induction sep cur s rule: split_from.induct) simp_all

lemma py_split_nonempty: "py_split sep s \<noteq> []"
  by (simp add: py_split_def split_from_nonempty)

lemma count_error_fields [simp]:
  "total_errors (count_error st) = total_errors st + 1"
  "total_records (count_error st) = total_records st"
  "processed_files (count_error st) = processed_files st"
  "emitted (count_error st) = emitted st"
  "saved (count_error st) = saved st"
  "progress_lines (count_error st) = progress_lines st"
  by (simp_all add: count_error_def)

lemma check_limit_state [simp]: "flow_state (check_limit ctx st) = st"
  by (simp add: check_limit_def split: option.splits)

lemma check_limit_not_Raise [simp]: "check_limit ctx st \<noteq> Raise e st'"
  by (simp add: check_limit_def split: option.splits)

lemma inner_handler_processed [simp]:
  "processed_files (flow_state (inner_handler e st)) = processed_files st"
  by (simp add: inner_handler_def)

lemma emit_processed [simp]:
  "processed_files (flow_state (emit ctx n i ex st)) = processed_files st"
  by (simp add: emit_def Let_def)

lemma process_line_processed [simp]:
  "processed_files (flow_state (process_line ctx n i l st)) = processed_files st"
proof -
  have "\<And>r. processed_files (flow_state r) = processed_files st \<Longrightarrow>
     processed_files (flow_state (case r of Raise e st' \<Rightarrow> inner_handler e st' | r \<Rightarrow> r)) = processed_files st"
  proof -
    fix r show "processed_files (flow_state r) = processed_files st \<Longrightarrow>
     processed_files (flow_state (case r of Raise e st' \<Rightarrow> inner_handler e st' | r \<Rightarrow> r)) = processed_files st"
      by (cases r) simp_all
  qed
  then show ?thesis
    unfolding process_line_def by (simp split: sum.splits option.splits)
qed

lemma run_lines_processed [simp]:
  "processed_files (flow_state (run_lines ctx n i ls st)) = processed_files st"
proof (induction ls arbitrary: st)
  case Nil
  show ?case by simp
next
  case (Cons l ls)
  have "processed_files (flow_state (process_line ctx n i l st)) = processed_files st" by simp
  then show ?case using Cons.IH
    by (cases "process_line ctx n i l st") simp_all
qed

lemma mark_complete_processed [simp]:
  "processed_files (mark_complete k st) = finsert (KStr k) (processed_files st)"
  by (simp add: mark_complete_def Let_def save_progress_def)

lemma process_file_not_Raise [simp]: "process_file ctx n i k f st \<noteq> Raise e st'"
  by (simp add: process_file_def split: flow.splits option.splits)

lemma process_file_mono:
  "processed_files st |\<subseteq>| processed_files (flow_state (process_file ctx n i k f st))"
proof -
  have "processed_files (flow_state (run_lines ctx n i (file_lines f) st)) = processed_files st" by simp
  then show ?thesis
    unfolding process_file_def
    by (cases "run_lines ctx n i (file_lines f) st") (auto split: option.splits)
qed

lemma run_files_mono:
  "processed_files st |\<subseteq>| processed_files (run_files ctx n ifs st)"
proof (induction ifs arbitrary: st)
  case Nil
  show ?case by simp
next
  case (Cons a ifs)
  obtain i k f where a: "a = (i, k, f)" by (cases a)
  have m: "processed_files st |\<subseteq>| processed_files (flow_state (process_file ctx n i k f st))"
    by (rule process_file_mono)
  show ?case
  proof (cases "process_file ctx n i k f st")
    case (Next s)
    with m Cons.IH [of s] a show ?thesis by auto
  next
    case (Raise e s)
    then show ?thesis by simp
  next
    case (Return s)
    with m a show ?thesis by simp
  qed
qed

section \<open>Resume\<close>

lemma process_file_skip:
  "resume ctx \<Longrightarrow> KStr k |\<in>| processed_files st \<Longrightarrow> process_file ctx n i k f st = Next st"
  by (simp add: process_file_def)

lemma run_files_filter_loaded:
  assumes "resume ctx" and "loaded |\<subseteq>| processed_files st"
  shows "run_files ctx n (filter (\<lambda>(i, k, f). KStr k |\<notin>| loaded) ifs) st = run_files ctx n ifs st"
  using assms(2)
proof (induction ifs arbitrary: st)
  case Nil
  show ?case by simp
next
  case (Cons a ifs)
  obtain i k f where a: "a = (i, k, f)" by (cases a)
  show ?case
  proof (cases "KStr k |\<in>| loaded")
    case True
    with Cons.prems have "KStr k |\<in>| processed_files st" by auto
    with assms(1) have "process_file ctx n i k f st = Next st" by (rule process_file_skip)
    with True a Cons show ?thesis by simp
  next
    case False
    have m: "processed_files st |\<subseteq>| processed_files (flow_state (process_file ctx n i k f st))"
      by (rule process_file_mono)
    show ?thesis
    proof (cases "process_file ctx n i k f st")
      case (Next s)
      with m Cons.prems have "loaded |\<subseteq>| processed_files s" by auto
      with Cons.IH [of s] Next False a show ?thesis by simp
    next
      case (Raise e s)
      then show ?thesis by simp
    next
      case (Return s)
      with False a show ?thesis by simp
    qed
  qed
qed

lemma ex_extract [simp]: "default_extractor ex_str (JObj []) = Inr (Some (JStr [], JStr [], JStr [], JStr [], JStr []))"
  by (simp add: default_extractor_def default_extractor_body_def bind_exn_def join_field_def ex_str_def)

lemma ex_line_ok:
  "process_line ex_ctx n i ''{}'' st =
     Next (st\<lparr>total_records := total_records st + 1, emitted := emitted st @ [ex_action]\<rparr>)"
  if "(total_records st + 1) mod 100000 \<noteq> 0"
  using that
  by (simp add: process_line_def ex_ctx_def ex_loads_def emit_def Let_def check_limit_def ex_action_def)

text \<open>
  C2. With resume enabled, a file whose key is in the processed-file set is skipped: the
  state is left as it is (no action, no error) whatever the file holds, and the run of
  the generator is the run over the files whose keys are not in the loaded set, each at
  its own position.
\<close>

theorem resume_skips_processed_files:
  assumes "resume ctx" and "loaded |\<subseteq>| processed_files st"
  shows "(\<forall>n i k f s. KStr k |\<in>| processed_files s \<longrightarrow> process_file ctx n i k f s = Next s) \<and>
         generate_actions ctx files st =
           run_files ctx (length files)
             (filter (\<lambda>(i, k, f). KStr k |\<notin>| loaded) (enumerate 0 files)) st"
  using assms
  by (simp add: process_file_skip generate_actions_def run_files_filter_loaded)

theorem resume_skips_processed_files_witness:
  "resume ex_ctx \<and>
   {|KStr ''a.jsonl''|} |\<subseteq>| processed_files (initial_state {|KStr ''a.jsonl''|}) \<and>
   generate_actions ex_ctx
     [(''a.jsonl'', SrcFile [''{}'', ''not json''] None), (''b.jsonl'', SrcFile [''{}''] None)]
     (initial_state {|KStr ''a.jsonl''|}) =
   (initial_state {|KStr ''a.jsonl''|})
     \<lparr>total_records := 1, processed_files := {|KStr ''b.jsonl'', KStr ''a.jsonl''|},
      emitted := [ex_action]\<rparr>"
proof -
  have r: "resume ex_ctx" by (simp add: ex_ctx_def)
  have l: "{|KStr ''a.jsonl''|} |\<subseteq>| processed_files (initial_state {|KStr ''a.jsonl''|})"
    by (simp add: initial_state_def)
  note t = resume_skips_processed_files [OF r l,
      of "[(''a.jsonl'', SrcFile [''{}'', ''not json''] None), (''b.jsonl'', SrcFile [''{}''] None)]"]
  have "\<And>n i. run_files ex_ctx n [(i, ''b.jsonl'', SrcFile [''{}''] None)] (initial_state {|KStr ''a.jsonl''|}) =
     (initial_state {|KStr ''a.jsonl''|})
     \<lparr>total_records := 1, processed_files := {|KStr ''b.jsonl'', KStr ''a.jsonl''|},
      emitted := [ex_action]\<rparr>"
    by (simp add: process_file_def ex_line_ok initial_state_def mark_complete_def Let_def fcard_finsert_if fcard_fempty)
  with t r l show ?thesis by (simp add: enumerate_eq_zip)
qed

section \<open>When a file is marked\<close>







section \<open>The record limit\<close>

lemma emit_limit:
  assumes "test_limit ctx = Some k" "1 \<le> k" "progress_interval ctx \<noteq> 0"
    "\<forall>m. elapsed_at ctx m \<noteq> 0" "total_records st < k"
  shows "limit_ok k (emit ctx n i ex st) \<and> (\<forall>e s. emit ctx n i ex st \<noteq> Raise e s)"
  using assms by (simp add: emit_def Let_def check_limit_def)

lemma inner_handler_limit:
  "total_records st < k \<Longrightarrow> limit_ok k (inner_handler e st)"
  by (simp add: inner_handler_def)

lemma process_line_limit:
  assumes "test_limit ctx = Some k" "1 \<le> k" "progress_interval ctx \<noteq> 0"
    "\<forall>m. elapsed_at ctx m \<noteq> 0" "total_records st < k"
  shows "limit_ok k (process_line ctx n i l st)"
proof (cases "loads ctx l")
  case (Inl e)
  with assms(5) show ?thesis by (simp add: process_line_def inner_handler_limit)
next
  case (Inr rec)
  show ?thesis
  proof (cases "extractor ctx rec")
    case (Inl e)
    with Inr assms(5) show ?thesis by (simp add: process_line_def inner_handler_limit)
  next
    case r: (Inr r)
    show ?thesis
    proof (cases r)
      case None
      with Inr r assms(5) show ?thesis by (simp add: process_line_def)
    next
      case (Some ex)
      from emit_limit [OF assms, of n i ex]
      have "limit_ok k (emit ctx n i ex st)" and "\<forall>e s. emit ctx n i ex st \<noteq> Raise e s"
        by simp_all
      with Inr r Some show ?thesis
        by (cases "emit ctx n i ex st") (simp_all add: process_line_def)
    qed
  qed
qed

lemma run_lines_limit:
  assumes "test_limit ctx = Some k" "1 \<le> k" "progress_interval ctx \<noteq> 0"
    "\<forall>m. elapsed_at ctx m \<noteq> 0" "total_records st < k"
  shows "limit_ok k (run_lines ctx n i ls st)"
  using assms(5)
proof (induction ls arbitrary: st)
  case Nil
  then show ?case by simp
next
  case (Cons l ls)
  from process_line_limit [OF assms(1-4) Cons.prems]
  have p: "limit_ok k (process_line ctx n i l st)" .
  show ?case
  proof (cases "process_line ctx n i l st")
    case (Next s)
    with p Cons.IH [of s] show ?thesis by simp
  next
    case (Raise e s)
    with p show ?thesis by simp
  next
    case (Return s)
    with p show ?thesis by simp
  qed
qed

lemma mark_complete_fields [simp]:
  "total_records (mark_complete key st) = total_records st"
  "total_errors (mark_complete key st) = total_errors st"
  "emitted (mark_complete key st) = emitted st"
  "progress_lines (mark_complete key st) = progress_lines st"
  by (simp_all add: mark_complete_def Let_def save_progress_def)

lemma process_file_limit:
  assumes "test_limit ctx = Some k" "1 \<le> k" "progress_interval ctx \<noteq> 0"
    "\<forall>m. elapsed_at ctx m \<noteq> 0" "total_records st < k"
  shows "limit_ok k (process_file ctx n i key f st)"
proof -
  from run_lines_limit [OF assms]
  have p: "limit_ok k (run_lines ctx n i (file_lines f) st)" .
  show ?thesis
  proof (cases "run_lines ctx n i (file_lines f) st")
    case (Next s)
    with p assms(5) show ?thesis
      by (cases "read_fault f") (simp_all add: process_file_def)
  next
    case (Raise e s)
    with p assms(5) show ?thesis by (simp add: process_file_def)
  next
    case (Return s)
    with p assms(5) show ?thesis by (simp add: process_file_def)
  qed
qed

lemma run_files_limit:
  assumes "test_limit ctx = Some k" "1 \<le> k" "progress_interval ctx \<noteq> 0"
    "\<forall>m. elapsed_at ctx m \<noteq> 0" "total_records st < k"
  shows "total_records (run_files ctx n ifs st) \<le> k"
  using assms(5)
proof (induction ifs arbitrary: st)
  case Nil
  then show ?case by simp
next
  case (Cons a ifs)
  obtain i key f where a: "a = (i, key, f)" by (cases a)
  from process_file_limit [OF assms(1-4) Cons.prems]
  have p: "limit_ok k (process_file ctx n i key f st)" .
  show ?case
  proof (cases "process_file ctx n i key f st")
    case (Next s)
    with p Cons.IH [of s] a show ?thesis by simp
  next
    case (Raise e s)
    then show ?thesis by simp
  next
    case (Return s)
    with p a show ?thesis by simp
  qed
qed

text \<open>The counter and the stream move together.\<close>

lemma check_limit_surplus [simp]:
  "emitted (flow_state (check_limit ctx st)) = emitted st"
  "total_records (flow_state (check_limit ctx st)) = total_records st"
  by simp_all

lemma emit_surplus:
  "int (length (emitted (flow_state (emit ctx n i ex st)))) - total_records (flow_state (emit ctx n i ex st))
     = int (length (emitted st)) - total_records st"
  by (simp add: emit_def Let_def)

lemma inner_handler_surplus:
  "int (length (emitted (flow_state (inner_handler e st)))) - total_records (flow_state (inner_handler e st))
     = int (length (emitted st)) - total_records st"
  by (simp add: inner_handler_def)

lemma process_line_surplus:
  "int (length (emitted (flow_state (process_line ctx n i l st)))) - total_records (flow_state (process_line ctx n i l st))
     = int (length (emitted st)) - total_records st"
proof (cases "loads ctx l")
  case (Inl e)
  then show ?thesis by (simp add: process_line_def inner_handler_surplus)
next
  case (Inr rec)
  show ?thesis
  proof (cases "extractor ctx rec")
    case (Inl e)
    with Inr show ?thesis by (simp add: process_line_def inner_handler_surplus)
  next
    case r: (Inr r)
    show ?thesis
    proof (cases r)
      case None
      with Inr r show ?thesis by (simp add: process_line_def)
    next
      case (Some ex)
      note e = emit_surplus [of ctx n i ex st]
      show ?thesis
      proof (cases "emit ctx n i ex st")
        case (Next s)
        with e Inr r Some show ?thesis by (simp add: process_line_def)
      next
        case (Raise x s)
        with e Inr r Some inner_handler_surplus [of x s] show ?thesis by (simp add: process_line_def)
      next
        case (Return s)
        with e Inr r Some show ?thesis by (simp add: process_line_def)
      qed
    qed
  qed
qed

lemma run_lines_surplus:
  "int (length (emitted (flow_state (run_lines ctx n i ls st)))) - total_records (flow_state (run_lines ctx n i ls st))
     = int (length (emitted st)) - total_records st"
proof (induction ls arbitrary: st)
  case Nil
  show ?case by simp
next
  case (Cons l ls)
  note p = process_line_surplus [of ctx n i l st]
  show ?case
  proof (cases "process_line ctx n i l st")
    case (Next s)
    with p Cons.IH [of s] show ?thesis by simp
  next
    case (Raise e s)
    with p show ?thesis by simp
  next
    case (Return s)
    with p show ?thesis by simp
  qed
qed

lemma process_file_surplus:
  "int (length (emitted (flow_state (process_file ctx n i key f st)))) - total_records (flow_state (process_file ctx n i key f st))
     = int (length (emitted st)) - total_records st"
proof -
  note p = run_lines_surplus [of ctx n i "file_lines f" st]
  show ?thesis
  proof (cases "run_lines ctx n i (file_lines f) st")
    case (Next s)
    with p show ?thesis by (cases "read_fault f") (simp_all add: process_file_def)
  next
    case (Raise e s)
    with p show ?thesis by (simp add: process_file_def)
  next
    case (Return s)
    with p show ?thesis by (simp add: process_file_def)
  qed
qed

lemma run_files_surplus:
  "int (length (emitted (run_files ctx n ifs st))) - total_records (run_files ctx n ifs st)
     = int (length (emitted st)) - total_records st"
proof (induction ifs arbitrary: st)
  case Nil
  show ?case by simp
next
  case (Cons a ifs)
  obtain i key f where a: "a = (i, key, f)" by (cases a)
  note p = process_file_surplus [of ctx n i key f st]
  show ?case
  proof (cases "process_file ctx n i key f st")
    case (Next s)
    with p Cons.IH [of s] a show ?thesis by simp
  next
    case (Raise e s)
    then show ?thesis by simp
  next
    case (Return s)
    with p a show ?thesis by simp
  qed
qed


lemma run_lines_append:
  "run_lines ctx n i (xs @ ys) st =
     (case run_lines ctx n i xs st of Next s \<Rightarrow> run_lines ctx n i ys s | r \<Rightarrow> r)"
proof (induction xs arbitrary: st)
  case Nil
  show ?case by simp
next
  case (Cons x xs)
  then show ?case by (cases "process_line ctx n i x st") simp_all
qed

lemma return_ends_run:
  assumes "run_lines ctx n i pre st = Next s0" and "process_line ctx n i l s0 = Return s"
    and "\<not> (resume ctx \<and> KStr key |\<in>| processed_files st)"
  shows "run_files ctx n ((i, key, SrcFile (pre @ l # post) flt) # rest) st = s"
proof -
  from assms(1,2) have "run_lines ctx n i (pre @ l # post) st = Return s"
    by (simp add: run_lines_append)
  with assms(3) show ?thesis by (auto simp: process_file_def)
qed

lemma process_line_reaches_limit:
  assumes "test_limit ctx = Some k" "1 \<le> k" "progress_interval ctx \<noteq> 0"
    "\<forall>m. elapsed_at ctx m \<noteq> 0"
    and "loads ctx l = Inr rec" "extractor ctx rec = Inr (Some ex)" "k \<le> total_records s0 + 1"
  shows "\<exists>s. process_line ctx n i l s0 = Return s \<and> total_records s = total_records s0 + 1 \<and>
           emitted s = emitted s0 @ [make_action (index_name ctx) ex] \<and>
           total_errors s = total_errors s0 \<and> processed_files s = processed_files s0"
  using assms by (auto simp: process_line_def emit_def Let_def check_limit_def)

text \<open>
  C3, as amended. For a limit \<open>k\<close> of at least 1, when no progress report divides by
  zero (the interval is not 0 and the clock has advanced), a run that starts at
  \<^verbatim>\<open>add_jsonl_files\<close> yields at most \<open>k\<close> actions. When the record that brings the
  counter to \<open>k\<close> is yielded at a line \<open>l\<close> of a file, the generator ends in the state
  right after this record: the lines after \<open>l\<close> and the files after this one change
  nothing, and the file is not marked.
\<close>

theorem limit_enforced:
  assumes "test_limit ctx = Some k" and "1 \<le> k" and "progress_interval ctx \<noteq> 0"
    and "\<forall>m. elapsed_at ctx m \<noteq> 0"
  shows "int (length (emitted (generate_actions ctx files (initial_state P)))) \<le> k \<and>
    (run_lines ctx n i pre st = Next s0 \<and> loads ctx l = Inr rec \<and>
     extractor ctx rec = Inr (Some ex) \<and> k \<le> total_records s0 + 1 \<and>
     \<not> (resume ctx \<and> KStr key |\<in>| processed_files st) \<longrightarrow>
       (let s = run_files ctx n ((i, key, SrcFile (pre @ l # post) flt) # rest) st
        in total_records s = total_records s0 + 1 \<and>
           emitted s = emitted s0 @ [make_action (index_name ctx) ex] \<and>
           total_errors s = total_errors s0 \<and>
           processed_files s = processed_files st))"
proof (intro conjI impI)
  let ?st0 = "initial_state P"
  have z: "total_records ?st0 < k" using assms(2) by (simp add: initial_state_def)
  have "total_records (run_files ctx (length files) (enumerate 0 files) ?st0) \<le> k"
    by (rule run_files_limit [OF assms z])
  moreover have "int (length (emitted (run_files ctx (length files) (enumerate 0 files) ?st0)))
      - total_records (run_files ctx (length files) (enumerate 0 files) ?st0)
      = int (length (emitted ?st0)) - total_records ?st0"
    by (rule run_files_surplus)
  ultimately show "int (length (emitted (generate_actions ctx files ?st0))) \<le> k"
    by (simp add: generate_actions_def initial_state_def)
next
  assume a: "run_lines ctx n i pre st = Next s0 \<and> loads ctx l = Inr rec \<and>
     extractor ctx rec = Inr (Some ex) \<and> k \<le> total_records s0 + 1 \<and>
     \<not> (resume ctx \<and> KStr key |\<in>| processed_files st)"
  then obtain s where s: "process_line ctx n i l s0 = Return s"
    "total_records s = total_records s0 + 1"
    "emitted s = emitted s0 @ [make_action (index_name ctx) ex]"
    "total_errors s = total_errors s0" "processed_files s = processed_files s0"
    using process_line_reaches_limit [OF assms, of l rec ex s0 n i] by blast
  from a have "processed_files (flow_state (run_lines ctx n i pre st)) = processed_files s0"
    by simp
  then have p: "processed_files s0 = processed_files st" by simp
  from a s(1) have "run_files ctx n ((i, key, SrcFile (pre @ l # post) flt) # rest) st = s"
    by (intro return_ends_run) simp_all
  with s p show "let s = run_files ctx n ((i, key, SrcFile (pre @ l # post) flt) # rest) st
        in total_records s = total_records s0 + 1 \<and>
           emitted s = emitted s0 @ [make_action (index_name ctx) ex] \<and>
           total_errors s = total_errors s0 \<and>
           processed_files s = processed_files st"
    by (simp add: Let_def)
qed

lemmas ex_eval = generate_actions_def process_file_def process_line_def emit_def check_limit_def
  inner_handler_def mark_complete_def save_progress_def count_error_def initial_state_def
  ex_ctx_def ex_loads_def ex_action_def Let_def fcard_finsert_if fcard_fempty

text \<open>
  C3 as stated fails for the limit 0, which \<^verbatim>\<open>if test_limit and ...\<close> takes for no
  limit: both records of the file are yielded. It also fails when the progress report
  raises before the limit is tested: with the limit 1 and the interval 0 each of the two
  files yields a record.
\<close>

theorem limit_zero_counterexample:
  "emitted (generate_actions (ex_ctx\<lparr>test_limit := Some 0\<rparr>)
      [(''a.jsonl'', SrcFile [''{}'', ''{}''] None)] (initial_state {||})) = [ex_action, ex_action] \<and>
   \<not> int (length (emitted (generate_actions (ex_ctx\<lparr>test_limit := Some 0\<rparr>)
      [(''a.jsonl'', SrcFile [''{}'', ''{}''] None)] (initial_state {||})))) \<le> 0 \<and>
   emitted (generate_actions (ex_ctx\<lparr>test_limit := Some 1, progress_interval := 0\<rparr>)
      [(''a.jsonl'', SrcFile [''{}''] None), (''b.jsonl'', SrcFile [''{}''] None)]
      (initial_state {||})) = [ex_action, ex_action]"
  by (simp add: ex_eval)

theorem limit_enforced_witness:
  "test_limit (ex_ctx\<lparr>test_limit := Some 2\<rparr>) = Some 2 \<and> (1::int) \<le> 2 \<and>
   progress_interval (ex_ctx\<lparr>test_limit := Some 2\<rparr>) \<noteq> 0 \<and>
   (\<forall>m. elapsed_at (ex_ctx\<lparr>test_limit := Some 2\<rparr>) m \<noteq> 0) \<and>
   int (length (emitted (generate_actions (ex_ctx\<lparr>test_limit := Some 2\<rparr>)
      [(''a.jsonl'', SrcFile [''{}'', ''{}'', ''{}''] None), (''b.jsonl'', SrcFile [''{}''] None)]
      (initial_state {||})))) \<le> 2 \<and>
   run_files (ex_ctx\<lparr>test_limit := Some 2\<rparr>) 2
      [(0, ''a.jsonl'', SrcFile ([''{}''] @ ''{}'' # [''{}'']) None),
       (1, ''b.jsonl'', SrcFile [''{}''] None)] (initial_state {||}) =
     (initial_state {||})\<lparr>total_records := 2, emitted := [ex_action, ex_action]\<rparr>"
proof -
  let ?c = "ex_ctx\<lparr>test_limit := Some 2\<rparr>"
  let ?st = "initial_state {||}"
  let ?s0 = "?st\<lparr>total_records := 1, emitted := [ex_action]\<rparr>"
  let ?ex = "(JStr [], JStr [], JStr [], JStr [], JStr [])"
  have h: "test_limit ?c = Some 2" "(1::int) \<le> 2" "progress_interval ?c \<noteq> 0"
    "\<forall>m. elapsed_at ?c m \<noteq> 0"
    by (simp_all add: ex_ctx_def)
  note t = limit_enforced [OF h,
      of "[(''a.jsonl'', SrcFile [''{}'', ''{}'', ''{}''] None), (''b.jsonl'', SrcFile [''{}''] None)]"
         "{||}" 2 0 "[''{}'']" ?st ?s0 "''{}''" "JObj []" ?ex "''a.jsonl''" "[''{}'']" None
         "[(1, ''b.jsonl'', SrcFile [''{}''] None)]"]
  have p: "run_lines ?c 2 0 [''{}''] ?st = Next ?s0 \<and> loads ?c ''{}'' = Inr (JObj []) \<and>
     extractor ?c (JObj []) = Inr (Some ?ex) \<and> 2 \<le> total_records ?s0 + 1 \<and>
     \<not> (resume ?c \<and> KStr ''a.jsonl'' |\<in>| processed_files ?st)"
    by (simp add: ex_eval)
  let ?r = "run_files ?c 2
      [(0, ''a.jsonl'', SrcFile ([''{}''] @ ''{}'' # [''{}'']) None),
       (1, ''b.jsonl'', SrcFile [''{}''] None)] ?st"
  from t p have "total_records ?r = total_records ?s0 + 1 \<and>
           emitted ?r = emitted ?s0 @ [make_action (index_name ?c) ?ex] \<and>
           total_errors ?r = total_errors ?s0 \<and>
           processed_files ?r = processed_files ?st"
    unfolding Let_def by blast
  moreover have "progress_lines ?r = [] \<and> saved ?r = []"
    by (simp add: ex_eval)
  ultimately have "?r = ?st\<lparr>total_records := 2, emitted := [ex_action, ex_action]\<rparr>"
    by (simp add: initial_state_def ex_action_def ex_ctx_def)
  with t h show ?thesis by blast
qed

section \<open>Malformed and rejected lines\<close>









lemma process_line_rejected:
  "rejected ctx l \<Longrightarrow> process_line ctx n i l st = Next st"
  by (auto simp: rejected_def process_line_def split: sum.splits option.splits)

lemma run_lines_drop_rejected:
  "run_lines ctx n i (filter (\<lambda>l. \<not> rejected ctx l) ls) st = run_lines ctx n i ls st"
proof (induction ls arbitrary: st)
  case Nil
  show ?case by simp
next
  case (Cons l ls)
  show ?case
  proof (cases "rejected ctx l")
    case True
    with Cons show ?thesis by (simp add: process_line_rejected)
  next
    case False
    with Cons show ?thesis by (cases "process_line ctx n i l st") simp_all
  qed
qed

lemma default_extractor_swallows:
  "default_extractor_body py_str rec = Inl e \<Longrightarrow> default_extractor py_str rec = Inr None"
  by (simp add: default_extractor_def)

lemma default_extractor_never_raises: "default_extractor py_str rec \<noteq> Inl e"
  by (simp add: default_extractor_def)

text \<open>
  C5, as amended. A line that parses and for which the extractor returns
  \<^verbatim>\<open>None\<close> leaves the state as it is (no action, no error) and the loop goes on; such
  lines can be dropped from a file without changing what the file does to the run, and
  a file of such lines only is marked processed. \<^verbatim>\<open>default_extractor\<close> never raises:
  a failure inside it makes it return \<^verbatim>\<open>None\<close>, so the line is rejected. An
  exception other than \<^verbatim>\<open>JSONDecodeError\<close> that escapes an extractor leaves the
  loop over the lines.
\<close>

theorem rejected_lines_are_silent:
  "(rejected ctx l \<longrightarrow>
      process_line ctx n i l st = Next st \<and>
      run_lines ctx n i (l # rest) st = run_lines ctx n i rest st) \<and>
   process_file ctx n i key (SrcFile (filter (\<lambda>x. \<not> rejected ctx x) ls) flt) st =
     process_file ctx n i key (SrcFile ls flt) st \<and>
   ((\<forall>x \<in> set ls. rejected ctx x) \<and> \<not> (resume ctx \<and> KStr key |\<in>| processed_files st) \<longrightarrow>
      process_file ctx n i key (SrcFile ls None) st = Next (mark_complete key st)) \<and>
   default_extractor py_str rec \<noteq> Inl e \<and>
   (extractor ctx = default_extractor py_str \<and> loads ctx l = Inr rec \<and>
    default_extractor_body py_str rec = Inl e \<longrightarrow> rejected ctx l) \<and>
   (loads ctx l = Inr rec \<and> extractor ctx rec = Inl e \<and> e \<noteq> JSONDecodeError \<longrightarrow>
      process_line ctx n i l st = Raise e st)"
proof (intro conjI impI)
  assume "rejected ctx l"
  then have "process_line ctx n i l st = Next st" by (rule process_line_rejected)
  then show "process_line ctx n i l st = Next st"
    and "run_lines ctx n i (l # rest) st = run_lines ctx n i rest st" by simp_all
next
  show "process_file ctx n i key (SrcFile (filter (\<lambda>x. \<not> rejected ctx x) ls) flt) st =
     process_file ctx n i key (SrcFile ls flt) st"
    by (simp add: process_file_def run_lines_drop_rejected split: flow.splits)
next
  assume a: "(\<forall>x \<in> set ls. rejected ctx x) \<and> \<not> (resume ctx \<and> KStr key |\<in>| processed_files st)"
  then have "filter (\<lambda>x. \<not> rejected ctx x) ls = []" by simp
  with run_lines_drop_rejected [of ctx n i ls st] have "run_lines ctx n i ls st = Next st" by simp
  with a show "process_file ctx n i key (SrcFile ls None) st = Next (mark_complete key st)"
    by (auto simp: process_file_def)
next
  show "default_extractor py_str rec \<noteq> Inl e" by (rule default_extractor_never_raises)
next
  assume "extractor ctx = default_extractor py_str \<and> loads ctx l = Inr rec \<and>
    default_extractor_body py_str rec = Inl e"
  then show "rejected ctx l" by (simp add: rejected_def default_extractor_def)
next
  assume "loads ctx l = Inr rec \<and> extractor ctx rec = Inl e \<and> e \<noteq> JSONDecodeError"
  then show "process_line ctx n i l st = Raise e st"
    by (simp add: process_line_def inner_handler_def)
qed

text \<open>
  C5 as stated fails for an extractor that raises: the exception reaches the handler of
  the file, which counts an error and does not mark the file.
\<close>

theorem raising_extractor_counterexample:
  "process_file (ex_ctx\<lparr>extractor := (\<lambda>rec. Inl OtherError)\<rparr>) 1 0 ''a.jsonl''
     (SrcFile [''{}'', ''{}''] None) (initial_state {||}) =
   Next ((initial_state {||})\<lparr>total_errors := 1\<rparr>) \<and>
   KStr ''a.jsonl'' |\<notin>| processed_files ((initial_state {||})\<lparr>total_errors := 1\<rparr>)"
  by (simp add: ex_eval)

theorem rejected_lines_are_silent_witness:
  "rejected ex_ctx ''[]'' \<and>
   default_extractor_body ex_str (JArr []) = Inl AttributeError \<and>
   process_line ex_ctx 1 0 ''[]'' (initial_state {||}) = Next (initial_state {||}) \<and>
   process_file ex_ctx 1 0 ''a.jsonl'' (SrcFile [''[]'', ''[]''] None) (initial_state {||}) =
     Next ((initial_state {||})\<lparr>processed_files := {|KStr ''a.jsonl''|}\<rparr>) \<and>
   process_file ex_ctx 1 0 ''a.jsonl'' (SrcFile [''[]'', ''{}'', ''[]''] None) (initial_state {||}) =
     Next ((initial_state {||})\<lparr>total_records := 1, processed_files := {|KStr ''a.jsonl''|},
                               emitted := [ex_action]\<rparr>) \<and>
   process_line (ex_ctx\<lparr>extractor := (\<lambda>rec. Inl OtherError)\<rparr>) 1 0 ''{}'' (initial_state {||}) =
     Raise OtherError (initial_state {||})"
proof -
  let ?st = "initial_state {||}"
  let ?c = "ex_ctx\<lparr>extractor := (\<lambda>rec. Inl OtherError)\<rparr>"
  have b: "default_extractor_body ex_str (JArr []) = Inl AttributeError"
    by (simp add: default_extractor_body_def bind_exn_def)
  have e: "extractor ex_ctx = default_extractor ex_str \<and> loads ex_ctx ''[]'' = Inr (JArr []) \<and>
    default_extractor_body ex_str (JArr []) = Inl AttributeError"
    by (simp add: b) (simp add: ex_ctx_def ex_loads_def)
  note t = rejected_lines_are_silent [of ex_ctx "''[]''" 1 0 ?st "[]" "''a.jsonl''"
      "[''[]'', ''{}'', ''[]'']" None ex_str "JArr []" AttributeError]
  note u = rejected_lines_are_silent [of ex_ctx "''[]''" 1 0 ?st "[]" "''a.jsonl''"
      "[''[]'', ''[]'']" None ex_str "JArr []" AttributeError]
  note v = rejected_lines_are_silent [of ?c "''{}''" 1 0 ?st "[]" "''a.jsonl''"
      "[]" None ex_str "JObj []" OtherError]
  from t e have r: "rejected ex_ctx ''[]''" by blast
  from t r have p: "process_line ex_ctx 1 0 ''[]'' ?st = Next ?st" by blast
  have ny: "\<not> rejected ex_ctx ''{}''" by (simp add: rejected_def ex_ctx_def ex_loads_def)
  have ns: "\<not> (resume ex_ctx \<and> KStr ''a.jsonl'' |\<in>| processed_files ?st)"
    by (simp add: initial_state_def)
  from u r ns have "process_file ex_ctx 1 0 ''a.jsonl'' (SrcFile [''[]'', ''[]''] None) ?st =
      Next (mark_complete ''a.jsonl'' ?st)" by simp
  then have q: "process_file ex_ctx 1 0 ''a.jsonl'' (SrcFile [''[]'', ''[]''] None) ?st =
      Next (?st\<lparr>processed_files := {|KStr ''a.jsonl''|}\<rparr>)"
    by (simp add: mark_complete_def initial_state_def Let_def fcard_finsert_if fcard_fempty)
  from t have "process_file ex_ctx 1 0 ''a.jsonl'' (SrcFile [''[]'', ''{}'', ''[]''] None) ?st =
      process_file ex_ctx 1 0 ''a.jsonl''
        (SrcFile (filter (\<lambda>x. \<not> rejected ex_ctx x) [''[]'', ''{}'', ''[]'']) None) ?st"
    by simp
  also have "\<dots> = process_file ex_ctx 1 0 ''a.jsonl'' (SrcFile [''{}''] None) ?st"
    by (simp add: r ny)
  also have "\<dots> = Next (?st\<lparr>total_records := 1, processed_files := {|KStr ''a.jsonl''|},
                               emitted := [ex_action]\<rparr>)"
    by (simp add: ex_eval)
  finally have f: "process_file ex_ctx 1 0 ''a.jsonl'' (SrcFile [''[]'', ''{}'', ''[]''] None) ?st =
      Next (?st\<lparr>total_records := 1, processed_files := {|KStr ''a.jsonl''|},
                               emitted := [ex_action]\<rparr>)" .
  have "loads ?c ''{}'' = Inr (JObj []) \<and> extractor ?c (JObj []) = Inl OtherError \<and>
      OtherError \<noteq> JSONDecodeError"
    by (simp add: ex_ctx_def ex_loads_def)
  with v have w: "process_line ?c 1 0 ''{}'' ?st = Raise OtherError ?st" by blast
  from r b p q f w show ?thesis by blast
qed

section \<open>Submission, rates and statistics\<close>

lemma ex_discover: "discover_files ex_fs ''data/*.jsonl'' = Inr [''data/a.jsonl'']"
  by (simp add: discover_files_def ex_fs_def bind_exn_def)

lemma ex_read: "read_file ex_fs p = SrcFile [''{}''] None"
  by (simp add: ex_fs_def)

lemma ex_generate:
  "KStr ''data/a.jsonl'' |\<notin>| P \<Longrightarrow> generate_actions ex_ctx [(''data/a.jsonl'', SrcFile [''{}''] None)]
     \<lparr>total_records = 0, total_errors = 0, processed_files = P,
      emitted = [], progress_lines = [], saved = []\<rparr> =
     \<lparr>total_records = 1, total_errors = 0,
      processed_files = finsert (KStr ''data/a.jsonl'') P, emitted = [ex_action],
      progress_lines = [],
      saved = (if int (fcard (finsert (KStr ''data/a.jsonl'') P)) mod 100 = 0
               then [finsert (KStr ''data/a.jsonl'') P] else [])\<rparr>"
  by (simp add: generate_actions_def process_file_def process_line_def emit_def check_limit_def
      inner_handler_def mark_complete_def save_progress_def
      ex_ctx_def ex_loads_def ex_action_def Let_def)

text \<open>
  C6 fails in sequential mode. One file with one valid line, a backend that refuses the
  item: with \<^verbatim>\<open>parallel=False\<close> the returned \<^verbatim>\<open>total_errors\<close> is 0, the result of
  \<^verbatim>\<open>bulk\<close> being dropped; with \<^verbatim>\<open>parallel=True\<close> the same failure is counted.
  In both modes the run goes on to the final save and returns its statistics.
\<close>

theorem sequential_mode_drops_item_failures:
  "bulk_results (\<lambda>i a. False) [ex_action] = [False] \<and>
   add_jsonl_files ex_ctx False (\<lambda>i a. False) 2 ex_fs ''data/*.jsonl'' {||} =
     Inr (\<lparr>stat_total_records = 1, stat_total_errors = 0, elapsed_seconds = 2,
            elapsed_hours = 2 / 3600, rate_per_second = 1 / 2, files_processed = 1\<rparr>,
          \<lparr>total_records = 1, total_errors = 0, processed_files = {|KStr ''data/a.jsonl''|},
           emitted = [ex_action], progress_lines = [], saved = [{|KStr ''data/a.jsonl''|}]\<rparr>) \<and>
   add_jsonl_files ex_ctx True (\<lambda>i a. False) 2 ex_fs ''data/*.jsonl'' {||} =
     Inr (\<lparr>stat_total_records = 1, stat_total_errors = 1, elapsed_seconds = 2,
            elapsed_hours = 2 / 3600, rate_per_second = 1 / 2, files_processed = 1\<rparr>,
          \<lparr>total_records = 1, total_errors = 1, processed_files = {|KStr ''data/a.jsonl''|},
           emitted = [ex_action], progress_lines = [], saved = [{|KStr ''data/a.jsonl''|}]\<rparr>)"
  by (simp add: add_jsonl_files_def ex_discover bind_exn_def ex_generate submit_def
      bulk_results_def save_progress_def build_stats_def initial_state_def
      fcard_finsert_if fcard_fempty ex_read)

text \<open>
  C7 fails for the progress lines. With a report due at the first record and a clock
  that has not advanced, \<^verbatim>\<open>rate = total_records / elapsed\<close> raises
  \<^verbatim>\<open>ZeroDivisionError\<close>; the handler of the file takes it for a file error, so the
  rest of the file is dropped and the file is not marked. The final statistics guard
  the division: rate 0 for elapsed time 0, rate 100 for 1000 records in 10 seconds.
\<close>

theorem progress_rate_divides_by_zero:
  "emit (ex_ctx\<lparr>progress_interval := 1, elapsed_at := (\<lambda>n. 0)\<rparr>) 1 0
       (JStr [], JStr [], JStr [], JStr [], JStr []) (initial_state {||}) =
     Raise ZeroDivisionError ((initial_state {||})\<lparr>total_records := 1, emitted := [ex_action]\<rparr>) \<and>
   process_file (ex_ctx\<lparr>progress_interval := 1, elapsed_at := (\<lambda>n. 0)\<rparr>) 1 0 ''a.jsonl''
       (SrcFile [''{}'', ''{}''] None) (initial_state {||}) =
     Next ((initial_state {||})\<lparr>total_records := 1, total_errors := 1, emitted := [ex_action]\<rparr>) \<and>
   rate_per_second (build_stats 0 ((initial_state {||})\<lparr>total_records := 1000\<rparr>)) = 0 \<and>
   rate_per_second (build_stats 10 ((initial_state {||})\<lparr>total_records := 1000\<rparr>)) = 100"
  by (simp add: ex_eval build_stats_def)

lemma add_jsonl_files_Inr:
  assumes "add_jsonl_files ctx parallel item_ok elapsed_end fs pattern P = Inr (s, st)"
  shows "\<exists>files. discover_files fs pattern = Inr files \<and>
     st = save_progress (submit parallel item_ok
            (generate_actions ctx (map (\<lambda>p. (p, read_file fs p)) files) (initial_state P))) \<and>
     s = build_stats elapsed_end st"
  using assms
  by (cases "discover_files fs pattern") (auto simp: add_jsonl_files_def bind_exn_def Let_def)

text \<open>
  C10. The \<^verbatim>\<open>files_processed\<close> of the returned statistics is the size of the whole
  processed-file set at the end of the run, and this set contains every key loaded by
  the constructor: the files of earlier runs are counted.
\<close>

theorem files_processed_counts_whole_set:
  assumes "add_jsonl_files ctx parallel item_ok elapsed_end fs pattern (load_progress lds g) = Inr (s, st)"
  shows "files_processed s = fcard (processed_files st) \<and>
         load_progress lds g |\<subseteq>| processed_files st \<and>
         fcard (load_progress lds g) \<le> files_processed s"
proof -
  let ?P = "load_progress lds g"
  from add_jsonl_files_Inr [OF assms] obtain files where
    st: "st = save_progress (submit parallel item_ok
            (generate_actions ctx (map (\<lambda>p. (p, read_file fs p)) files) (initial_state ?P)))"
    and s: "s = build_stats elapsed_end st" by blast
  have a: "files_processed s = fcard (processed_files st)" by (simp add: s build_stats_def)
  have "processed_files (initial_state ?P) |\<subseteq>|
      processed_files (generate_actions ctx (map (\<lambda>p. (p, read_file fs p)) files) (initial_state ?P))"
    unfolding generate_actions_def by (rule run_files_mono)
  then have b: "?P |\<subseteq>| processed_files st"
    by (simp add: st save_progress_def submit_def initial_state_def)
  from b have "fcard ?P \<le> fcard (processed_files st)" by (rule fcard_mono)
  with a b show ?thesis by simp
qed

theorem files_processed_counts_whole_set_witness:
  "load_progress ex_loads (Doc (FieldText ''[\"old.jsonl\"]'')) = {|KStr ''old.jsonl''|} \<and>
   add_jsonl_files ex_ctx True (\<lambda>i a. True) 2 ex_fs ''data/*.jsonl''
       (load_progress ex_loads (Doc (FieldText ''[\"old.jsonl\"]''))) =
     Inr (\<lparr>stat_total_records = 1, stat_total_errors = 0, elapsed_seconds = 2,
            elapsed_hours = 2 / 3600, rate_per_second = 1 / 2, files_processed = 2\<rparr>,
          \<lparr>total_records = 1, total_errors = 0,
           processed_files = {|KStr ''data/a.jsonl'', KStr ''old.jsonl''|},
           emitted = [ex_action], progress_lines = [],
           saved = [{|KStr ''data/a.jsonl'', KStr ''old.jsonl''|}]\<rparr>) \<and>
   fcard {|KStr ''data/a.jsonl'', KStr ''old.jsonl''|} = 2"
proof -
  let ?P = "load_progress ex_loads (Doc (FieldText ''[\"old.jsonl\"]''))"
  let ?st = "\<lparr>total_records = 1, total_errors = 0,
           processed_files = {|KStr ''data/a.jsonl'', KStr ''old.jsonl''|},
           emitted = [ex_action], progress_lines = [],
           saved = [{|KStr ''data/a.jsonl'', KStr ''old.jsonl''|}]\<rparr>"
  let ?s = "build_stats 2 ?st"
  have l: "?P = {|KStr ''old.jsonl''|}"
    by (simp add: load_progress_def load_progress_body_def ex_loads_def bind_exn_def py_set_def)
  have r: "add_jsonl_files ex_ctx True (\<lambda>i a. True) 2 ex_fs ''data/*.jsonl'' ?P = Inr (?s, ?st)"
    unfolding l
    by (simp add: add_jsonl_files_def ex_discover bind_exn_def ex_generate submit_def
      bulk_results_def save_progress_def build_stats_def initial_state_def
      fcard_finsert_if fcard_fempty ex_read)
  from files_processed_counts_whole_set [OF r]
  have "files_processed ?s = fcard (processed_files ?st)" by blast
  then have c: "files_processed ?s = 2" by (simp add: fcard_finsert_if fcard_fempty)
  have "?s = \<lparr>stat_total_records = 1, stat_total_errors = 0, elapsed_seconds = 2,
            elapsed_hours = 2 / 3600, rate_per_second = 1 / 2, files_processed = 2\<rparr>"
    using c by (simp add: build_stats_def)
  with r l show ?thesis by (simp add: fcard_finsert_if fcard_fempty)
qed

section \<open>Loading the progress record\<close>

lemma hash_keys_strings: "hash_keys (map JStr paths) = Inr (map KStr paths)"
  by (induction paths) (simp_all add: bind_exn_def)

text \<open>
  C8, as amended. \<^verbatim>\<open>_load_progress\<close> does not raise: whatever exception the body
  of its \<^verbatim>\<open>try\<close> raises, the set is left empty. The set is empty when the document
  cannot be fetched, when \<^verbatim>\<open>processed_files\<close> is not a string, when it does not
  parse, and when it parses to a value that \<^verbatim>\<open>set\<close> refuses; it is the set of the
  strings of the stored array when the text parses to an array of strings; a document
  without the field gives the empty set.
\<close>

theorem load_progress_cases:
  "(load_progress_body lds g = Inl e \<longrightarrow> load_progress lds g = {||}) \<and>
   load_progress lds (GetRaises e) = {||} \<and>
   load_progress lds (Doc FieldOther) = {||} \<and>
   (lds s = Inl e \<longrightarrow> load_progress lds (Doc (FieldText s)) = {||}) \<and>
   (lds s = Inr v \<and> py_set v = Inl e \<longrightarrow> load_progress lds (Doc (FieldText s)) = {||}) \<and>
   (lds s = Inr (JArr (map JStr paths)) \<longrightarrow>
      load_progress lds (Doc (FieldText s)) = fset_of_list (map KStr paths)) \<and>
   (lds ''[]'' = Inr (JArr []) \<longrightarrow> load_progress lds (Doc FieldAbsent) = {||})"
  by (simp add: load_progress_def load_progress_body_def bind_exn_def py_set_def
      hash_keys_strings)

text \<open>
  C8 as stated fails for a corrupt record whose \<^verbatim>\<open>processed_files\<close> parses, but
  not to an array: for the JSON string \<^verbatim>\<open>"ab"\<close> the set is that of its characters.
\<close>

theorem load_progress_string_counterexample:
  "load_progress ex_loads (Doc (FieldText ''\"ab\"'')) = {|KStr ''a'', KStr ''b''|} \<and>
   load_progress ex_loads (Doc (FieldText ''\"ab\"'')) \<noteq> {||}"
  by (simp add: load_progress_def load_progress_body_def bind_exn_def py_set_def ex_loads_def)

theorem load_progress_cases_witness:
  "load_progress_body ex_loads (GetRaises NotFoundError) = Inl NotFoundError \<and>
   load_progress ex_loads (GetRaises NotFoundError) = {||} \<and>
   ex_loads ''not json'' = Inl JSONDecodeError \<and>
   load_progress ex_loads (Doc (FieldText ''not json'')) = {||} \<and>
   py_set JNull = Inl TypeError \<and>
   load_progress (\<lambda>s. Inr JNull) (Doc (FieldText ''null'')) = {||} \<and>
   load_progress ex_loads (Doc (FieldText ''[\"old.jsonl\"]'')) = {|KStr ''old.jsonl''|} \<and>
   load_progress ex_loads (Doc FieldAbsent) = {||}"
proof -
  note t = load_progress_cases [of ex_loads "GetRaises NotFoundError" NotFoundError "''not json''"
     JNull "[''old.jsonl'']"]
  note u = load_progress_cases [of ex_loads "GetRaises NotFoundError" JSONDecodeError "''not json''"
     JNull "[''old.jsonl'']"]
  note v = load_progress_cases [of "\<lambda>s. Inr JNull" "GetRaises NotFoundError" TypeError "''null''"
     JNull "[]"]
  note w = load_progress_cases [of ex_loads "GetRaises NotFoundError" NotFoundError
     "''[\"old.jsonl\"]''" JNull "[''old.jsonl'']"]
  have b: "load_progress_body ex_loads (GetRaises NotFoundError) = Inl NotFoundError"
    by (simp add: load_progress_body_def)
  have o: "ex_loads ''not json'' = Inl JSONDecodeError" by (simp add: ex_loads_def)
  have n: "py_set JNull = Inl TypeError" by (simp add: py_set_def bind_exn_def)
  have a: "ex_loads ''[\"old.jsonl\"]'' = Inr (JArr (map JStr [''old.jsonl'']))"
    by (simp add: ex_loads_def)
  have e: "ex_loads ''[]'' = Inr (JArr [])" by (simp add: ex_loads_def)
  from t b have 1: "load_progress ex_loads (GetRaises NotFoundError) = {||}" by blast
  from u o have 2: "load_progress ex_loads (Doc (FieldText ''not json'')) = {||}" by blast
  from v n have 3: "load_progress (\<lambda>s. Inr JNull) (Doc (FieldText ''null'')) = {||}" by blast
  from w a have "load_progress ex_loads (Doc (FieldText ''[\"old.jsonl\"]'')) =
      fset_of_list (map KStr [''old.jsonl''])" by blast
  then have 4: "load_progress ex_loads (Doc (FieldText ''[\"old.jsonl\"]'')) = {|KStr ''old.jsonl''|}"
    by simp
  from t e have 5: "load_progress ex_loads (Doc FieldAbsent) = {||}" by blast
  from b o n 1 2 3 4 5 show ?thesis by blast
qed

section \<open>Discovery of the files\<close>

lemma generate_actions_Nil: "generate_actions ctx [] st = st"
  by (simp add: generate_actions_def)

lemma submit_nothing: "emitted st = [] \<Longrightarrow> submit parallel item_ok st = st"
  by (simp add: submit_def bulk_results_def)

text \<open>What the block adds to the results of \<^verbatim>\<open>pathlib\<close>: the discovered paths are
  in order, part by part, and a run that discovers nothing returns statistics without
  records or errors.\<close>

lemma discovered_files_ordered:
  assumes "discover_files fs pattern = Inr files"
  shows "sorted (map path_parts files)"
proof -
  from assms obtain qs where "files = sort_key path_parts qs"
    by (auto simp: discover_files_def bind_exn_def split: sum.splits if_splits)
  then show ?thesis by (simp add: sorted_sort_key)
qed

lemma empty_discovery_completes:
  assumes "discover_files fs pattern = Inr []"
  shows "add_jsonl_files ctx parallel item_ok elapsed_end fs pattern P =
        Inr (\<lparr>stat_total_records = 0, stat_total_errors = 0, elapsed_seconds = elapsed_end,
               elapsed_hours = elapsed_end / 3600, rate_per_second = 0,
               files_processed = fcard P\<rparr>,
             (initial_state P)\<lparr>saved := [P]\<rparr>)"
proof -
  have "submit parallel item_ok (initial_state P) = initial_state P"
    by (rule submit_nothing) (simp add: initial_state_def)
  with assms show ?thesis
    by (simp add: add_jsonl_files_def bind_exn_def generate_actions_Nil)
       (simp add: save_progress_def build_stats_def initial_state_def Let_def)
qed

lemma split1: "py_split ''**'' ''a/**/b/**/*.x'' = [''a/'', ''/b/'', ''/*.x'']"
  by (simp add: py_split_def)

lemma split2: "py_split ''**/'' ''a/**/b/**/*.x'' = [''a/'', ''b/'', ''*.x'']"
  by (simp add: py_split_def)

lemma parts1: "path_parts ''a/**/b/**/*.x'' = [''a'', ''**'', ''b'', ''**'', ''*.x'']"
  by (simp add: path_parts_def py_split_def)

lemma parts2: "path_parts ''a/c/f.x'' = [''a'', ''c'', ''f.x'']"
  by (simp add: path_parts_def py_split_def)

lemma split3: "py_split ''**'' ''a/**/*.x'' = [''a/'', ''/*.x'']"
  by (simp add: py_split_def)

lemma split4: "py_split ''**/'' ''a/**/*.x'' = [''a/'', ''*.x'']"
  by (simp add: py_split_def)

lemma parts3: "path_parts ''a/**/*.x'' = [''a'', ''**'', ''*.x'']"
  by (simp add: path_parts_def py_split_def)

text \<open>
  C9 fails for a pattern with two recursive segments. The branch for \<^verbatim>\<open>**\<close> searches
  below the text before the first \<^verbatim>\<open>**\<close> for the text after the last \<^verbatim>\<open>**/\<close>
  and drops what stands between them: in a file system whose only file with the suffix
  below \<^verbatim>\<open>a/\<close> is \<^verbatim>\<open>a/c/f.x\<close>, the pattern \<^verbatim>\<open>a/**/b/**/*.x\<close> discovers this
  file, which is not below a directory \<^verbatim>\<open>b\<close> and does not match it. The pattern
  \<^verbatim>\<open>a/**/*.x\<close>, which the file does match, discovers the same.
\<close>

theorem nested_recursive_pattern_discovers_unmatched_file:
  "discover_files
     \<lparr>glob = (\<lambda>pattern. Inr []),
      rglob = (\<lambda>base tail. if base = ''a/'' \<and> tail = ''*.x'' then Inr [''a/c/f.x''] else Inr []),
      read_file = (\<lambda>p. SrcFile [] None)\<rparr>
     ''a/**/b/**/*.x'' = Inr [''a/c/f.x''] \<and>
   \<not> spec_matches (path_parts ''a/**/b/**/*.x'') (path_parts ''a/c/f.x'') \<and>
   discover_files
     \<lparr>glob = (\<lambda>pattern. Inr []),
      rglob = (\<lambda>base tail. if base = ''a/'' \<and> tail = ''*.x'' then Inr [''a/c/f.x''] else Inr []),
      read_file = (\<lambda>p. SrcFile [] None)\<rparr>
     ''a/**/*.x'' = Inr [''a/c/f.x''] \<and>
   spec_matches (path_parts ''a/**/*.x'') (path_parts ''a/c/f.x'')"
  by (simp add: discover_files_def bind_exn_def split1 split2 split3 split4 parts1 parts2 parts3)

end
